theory Spec2Isabelle
  imports Main
begin

section \<open>The crash collection server of api-crash-reporter-spec.ts\<close>

text \<open>
  The development embeds the test server that \<^verbatim>\<open>startServer\<close> builds in
  \<^verbatim>\<open>spec-main/api-crash-reporter-spec.ts\<close>, together with the helpers it calls
  (\<^verbatim>\<open>cleanup\<close>, \<^verbatim>\<open>waitForCrashReport\<close>, \<^verbatim>\<open>checkReport\<close>).
  Mutation is explicit state passing, a \<^verbatim>\<open>throw\<close> or a rejected promise is the
  \<open>Inl\<close> branch of a sum, and the callbacks that Node runs later are separate steps of an
  action language, so that uploads may interleave.
\<close>

subsection \<open>Data\<close>

text \<open>
  A value of a field of a decoded upload. The source declares \<^verbatim>\<open>CrashInfo\<close> with
  fields of type \<^verbatim>\<open>string\<close>; the object that \<^verbatim>\<open>multiparty\<close> hands to the callback
  of \<^verbatim>\<open>form.parse\<close> has, under every name, the array of the values submitted under
  that name, and the source reads every field through \<^verbatim>\<open>String(...)\<close> (lines 89 and
  382 to 391). Both shapes are values here.
\<close>

datatype jsvalue = JString string | JArray "string list"

fun is_string :: "jsvalue \<Rightarrow> bool" where
  "is_string (JString s) = True"
| "is_string (JArray vs) = False"

text \<open>\<^verbatim>\<open>String(v)\<close>: a string is itself, an array is its elements joined by commas.\<close>

fun join_commas :: "string list \<Rightarrow> string" where
  "join_commas [] = []"
| "join_commas [v] = v"
| "join_commas (v # w # vs) = v @ '','' @ join_commas (w # vs)"

fun js_String :: "jsvalue \<Rightarrow> string" where
  "js_String (JString s) = s"
| "js_String (JArray vs) = join_commas vs"

text \<open>
  \<^verbatim>\<open>CrashInfo\<close> as it is at run time: an object from field names to values. The
  callback of \<^verbatim>\<open>form.parse\<close> may also receive \<^verbatim>\<open>undefined\<close> for it, which is
  \<open>None\<close> below.
\<close>

type_synonym crash_info = "(string \<times> jsvalue) list"

definition field :: "crash_info option \<Rightarrow> string \<Rightarrow> jsvalue option" where
  "field info k = (case info of None \<Rightarrow> None | Some fs \<Rightarrow> map_of fs k)"

text \<open>
  The fields object that \<^verbatim>\<open>multiparty\<close> builds from the form fields of a body, given
  as the submitted pairs of name and value in their order: a name gets its key when it
  is first met, and each value is appended to the array of its name. The parser is a
  library and not part of the source; this is the behaviour the source relies on when it
  coerces the fields.
\<close>

fun add_field ::
  "string \<Rightarrow> string \<Rightarrow> (string \<times> string list) list \<Rightarrow> (string \<times> string list) list" where
  "add_field k v [] = [(k, [v])]"
| "add_field k v ((k', vs) # rest) =
     (if k' = k then (k', vs @ [v]) # rest else (k', vs) # add_field k v rest)"

definition multiparty_fields :: "(string \<times> string) list \<Rightarrow> crash_info" where
  "multiparty_fields form =
     map (\<lambda>(k, vs). (k, JArray vs)) (fold (\<lambda>(k, v). add_field k v) form [])"

text \<open>The values submitted under one name, in their order.\<close>

definition submitted :: "string \<Rightarrow> (string \<times> string) list \<Rightarrow> string list" where
  "submitted k form = map snd (filter (\<lambda>p. fst p = k) form)"

datatype error =
    ParseError string
  | NoCrashReportAvailable
  | AssertionError
  | AddrInUse nat

text \<open>
  An incoming request, described by its socket and by the two arguments with which
  \<^verbatim>\<open>form.parse\<close> calls back: \<^verbatim>\<open>(error, fields)\<close>.
\<close>

record request =
  conn :: nat
  parse_error :: "error option"
  parse_fields :: "crash_info option"

text \<open>
  What the \<^verbatim>\<open>crashReporter\<close> module answers at one moment; a report is
  represented by its \<^verbatim>\<open>id\<close>.
\<close>

record reporter_view =
  getLastCrashReport :: "string option"
  getUploadedReports :: "string list"

datatype event =
    ResponseEnd nat nat string
  | SocketDestroy nat
  | Resolved nat "crash_info option"

text \<open>
  What the callback given to \<^verbatim>\<open>res.end\<close> closes over: the socket of
  \<^verbatim>\<open>req\<close>, \<^verbatim>\<open>fields\<close> and \<^verbatim>\<open>reportId\<close>.
\<close>

record flush_closure =
  sock :: nat
  crash :: "crash_info option"
  sent_id :: string

text \<open>
  The state that one call of \<^verbatim>\<open>startServer\<close> closes over: the array
  \<^verbatim>\<open>crashes\<close>, the once-listeners of \<^verbatim>\<open>emitter\<close> (each identified with the promise
  it resolves), the number of promises handed out, the flush callbacks of
  \<^verbatim>\<open>res.end\<close> that Node still has to run, the
  effects observed so far in the order they happened, and the listener.
\<close>

record server =
  crashes :: "crash_info option list"
  listeners :: "nat list"
  promises :: nat
  flushing :: "flush_closure list"
  effects :: "event list"
  listening :: bool
  bound_port :: nat

definition new_server :: "nat \<Rightarrow> server" where
  "new_server p =
     \<lparr>crashes = [], listeners = [], promises = 0, flushing = [], effects = [],
      listening = True, bound_port = p\<rparr>"

subsection \<open>The operations of one server\<close>

definition getCrashes :: "server \<Rightarrow> crash_info option list" where
  "getCrashes srv = crashes srv"

text \<open>\<^verbatim>\<open>waitForCrash\<close>: a new promise whose resolver is registered with \<^verbatim>\<open>emitter.once\<close>.\<close>

definition waitForCrash :: "server \<Rightarrow> nat \<times> server" where
  "waitForCrash srv =
     (promises srv,
      srv\<lparr>listeners := listeners srv @ [promises srv], promises := Suc (promises srv)\<rparr>)"

text \<open>
  \<^verbatim>\<open>emitter.emit('crash', fields)\<close>: every registered listener is called with
  \<^verbatim>\<open>fields\<close>, in registration order, and, being a once-listener, is removed.
\<close>

definition emit_crash :: "crash_info option \<Rightarrow> server \<Rightarrow> server" where
  "emit_crash info srv =
     srv\<lparr>listeners := [],
         effects := effects srv @ map (\<lambda>p. Resolved p info) (listeners srv)\<rparr>"

definition reportId :: string where
  "reportId = ''abc-123-def-456-abc-789-abc-123-abcd''"

text \<open>
  \<^verbatim>\<open>waitForCrashReport\<close>: up to ten polls of \<^verbatim>\<open>getLastCrashReport\<close>, 100 ms apart.
  \<open>poll t\<close> is what the crash reporter answers at poll \<open>t\<close>; the second argument is the
  counter \<^verbatim>\<open>times\<close>, the third the iterations left. The result is the poll that succeeded.
\<close>

primrec waitLoop :: "(nat \<Rightarrow> reporter_view) \<Rightarrow> nat \<Rightarrow> nat \<Rightarrow> error + nat" where
  "waitLoop poll n 0 = Inl NoCrashReportAvailable"
| "waitLoop poll n (Suc left) =
     (if getLastCrashReport (poll n) \<noteq> None then Inr n
      else waitLoop poll (Suc n) left)"

definition waitForCrashReport :: "(nat \<Rightarrow> reporter_view) \<Rightarrow> error + nat" where
  "waitForCrashReport poll = waitLoop poll 0 10"

definition checkReport :: "(nat \<Rightarrow> reporter_view) \<Rightarrow> string \<Rightarrow> error + unit" where
  "checkReport poll rid =
     (case waitForCrashReport poll of
        Inl e \<Rightarrow> Inl e
      | Inr t \<Rightarrow>
          if getLastCrashReport (poll t) \<noteq> Some rid then Inl AssertionError
          else (case getUploadedReports (poll t) of
                  [] \<Rightarrow> Inl AssertionError
                | r # _ \<Rightarrow> if r \<noteq> rid then Inl AssertionError else Inr ()))"

text \<open>
  The callback given to \<^verbatim>\<open>form.parse\<close>: push, rethrow a parse error, otherwise end the
  response with the report id (status 200, the default of a Node response, is never
  changed) and leave the flush callback pending.
\<close>

definition parse_callback :: "request \<Rightarrow> server \<Rightarrow> (error + unit) \<times> server" where
  "parse_callback req srv =
     (let srv1 = srv\<lparr>crashes := crashes srv @ [parse_fields req]\<rparr> in
      case parse_error req of
        Some e \<Rightarrow> (Inl e, srv1)
      | None \<Rightarrow>
          (Inr (),
           srv1\<lparr>effects := effects srv1 @ [ResponseEnd (conn req) 200 reportId],
                flushing := flushing srv1 @
                  [\<lparr>sock = conn req, crash = parse_fields req, sent_id = reportId\<rparr>]\<rparr>))"

text \<open>
  The callback given to \<^verbatim>\<open>res.end\<close>, run once the response is flushed:
  \<^verbatim>\<open>await checkReport(reportId)\<close>, then destroy the socket, then emit.
\<close>

definition flush_callback ::
  "flush_closure \<Rightarrow> (nat \<Rightarrow> reporter_view) \<Rightarrow> server \<Rightarrow> (error + unit) \<times> server" where
  "flush_callback c poll srv =
     (let srv1 = srv\<lparr>flushing := remove1 c (flushing srv)\<rparr> in
      case checkReport poll (sent_id c) of
        Inl e \<Rightarrow> (Inl e, srv1)
      | Inr _ \<Rightarrow>
          (Inr (),
           emit_crash (crash c) (srv1\<lparr>effects := effects srv1 @ [SocketDestroy (sock c)]\<rparr>)))"

text \<open>One upload handled from decode to emit with nothing in between.\<close>

definition handleUpload ::
  "request \<Rightarrow> (nat \<Rightarrow> reporter_view) \<Rightarrow> server \<Rightarrow> (error + unit) \<times> server" where
  "handleUpload req poll srv =
     (case parse_callback req srv of
        (Inl e, srv1) \<Rightarrow> (Inl e, srv1)
      | (Inr _, srv1) \<Rightarrow>
          flush_callback \<lparr>sock = conn req, crash = parse_fields req, sent_id = reportId\<rparr> poll srv1)"

subsection \<open>Runs of one server\<close>

datatype action =
    ParseDone request
  | FlushDone nat "nat \<Rightarrow> reporter_view"
  | Upload request "nat \<Rightarrow> reporter_view"
  | WaitForCrash

fun step :: "action \<Rightarrow> server \<Rightarrow> server" where
  "step (ParseDone req) srv = snd (parse_callback req srv)"
| "step (FlushDone i poll) srv =
     (if i < length (flushing srv) then snd (flush_callback (flushing srv ! i) poll srv)
      else srv)"
| "step (Upload req poll) srv = snd (handleUpload req poll srv)"
| "step WaitForCrash srv = snd (waitForCrash srv)"

definition run :: "action list \<Rightarrow> server \<Rightarrow> server" where
  "run acts srv = fold step acts srv"

text \<open>The values with which promise \<open>p\<close> has been resolved, one entry per resolution.\<close>

fun resolved_by :: "nat \<Rightarrow> event \<Rightarrow> crash_info option list" where
  "resolved_by p (Resolved q info) = (if q = p then [info] else [])"
| "resolved_by p _ = []"

definition resolutions :: "nat \<Rightarrow> server \<Rightarrow> crash_info option list" where
  "resolutions p srv = concat (map (resolved_by p) (effects srv))"

text \<open>What an action pushes onto \<^verbatim>\<open>crashes\<close>.\<close>

fun pushed :: "action \<Rightarrow> crash_info option list" where
  "pushed (ParseDone req) = [parse_fields req]"
| "pushed (Upload req poll) = [parse_fields req]"
| "pushed _ = []"

subsection \<open>The module: port fixation, start and cleanup\<close>

text \<open>The decimal text of a number, as \<^verbatim>\<open>'http://127.0.0.1:' + port\<close> produces it.\<close>

fun string_of_nat :: "nat \<Rightarrow> string" where
  "string_of_nat n =
     (if n < 10 then [''0123456789'' ! n]
      else string_of_nat (n div 10) @ [''0123456789'' ! (n mod 10)])"

declare string_of_nat.simps [simp del]

text \<open>The object that \<^verbatim>\<open>startServer\<close> returns: the closures of one server, and its port.\<close>

record handle =
  server_id :: nat
  port :: nat

text \<open>
  In the source the body of \<^verbatim>\<open>startServer\<close> is interrupted, after the port
  fixation, by the markers of an unresolved merge (lines 436 to 723). The side of
  \<^verbatim>\<open>HEAD\<close> is empty, and the function resumes after the closing marker with
  \<^verbatim>\<open>afterTest.push\<close> and its \<^verbatim>\<open>return\<close>; the model reads it so.

  The module-level state: \<^verbatim>\<open>crashReporterPort\<close>, the array \<^verbatim>\<open>afterTest\<close> (each
  closure pushed by \<^verbatim>\<open>startServer\<close> closes the server it names), the servers created
  so far, and the calls of \<^verbatim>\<open>crashReporter.start\<close> made by \<^verbatim>\<open>startServer\<close>
  (\<^verbatim>\<open>companyName\<close>, \<^verbatim>\<open>submitURL\<close>).
\<close>

record world =
  crashReporterPort :: nat
  afterTest :: "nat list"
  servers :: "server list"
  reporter_starts :: "(string \<times> string) list"

definition init_world :: world where
  "init_world = \<lparr>crashReporterPort = 0, afterTest = [], servers = [], reporter_starts = []\<rparr>"

definition port_in_use :: "world \<Rightarrow> nat \<Rightarrow> bool" where
  "port_in_use w p = list_ex (\<lambda>s. listening s \<and> bound_port s = p) (servers w)"

text \<open>
  \<^verbatim>\<open>server.listen(crashReporterPort, '127.0.0.1', ...)\<close> followed by
  \<^verbatim>\<open>server.address().port\<close>. For a request of port 0 the operating system picks the
  port; its choice \<open>eph\<close> is an input. A port already bound on the loopback address is
  refused.
\<close>

definition listen :: "nat \<Rightarrow> nat \<Rightarrow> world \<Rightarrow> error + nat" where
  "listen requested eph w =
     (let p = (if requested = 0 then eph else requested)
      in if port_in_use w p then Inl (AddrInUse p) else Inr p)"

definition startServer :: "nat \<Rightarrow> world \<Rightarrow> error + (handle \<times> world)" where
  "startServer eph w =
     (case listen (crashReporterPort w) eph w of
        Inl e \<Rightarrow> Inl e
      | Inr p \<Rightarrow>
          (let sid = length (servers w);
               w1 = w\<lparr>servers := servers w @ [new_server p]\<rparr>;
               w2 = (if crashReporterPort w1 = 0
                     then w1\<lparr>reporter_starts := reporter_starts w1 @
                                [(''Umbrella Corporation'', ''http://127.0.0.1:'' @ string_of_nat p)],
                             crashReporterPort := p\<rparr>
                     else w1);
               w3 = w2\<lparr>afterTest := afterTest w2 @ [sid]\<rparr>
           in Inr (\<lparr>server_id = sid, port = p\<rparr>, w3)))"

text \<open>
  Modelled from the spec: \<^verbatim>\<open>server.close()\<close> belongs to Node's \<^verbatim>\<open>http\<close> module, which
  is not part of the source; the spec says of it that it closes the listener and releases
  the bound port, and that a second call must not fail.
\<close>

definition server_close :: "server \<Rightarrow> server" where
  "server_close srv = srv\<lparr>listening := False\<rparr>"

text \<open>The closure \<^verbatim>\<open>() => { server.close() }\<close> that \<^verbatim>\<open>startServer\<close> pushes.\<close>

definition stop :: "nat \<Rightarrow> server list \<Rightarrow> server list" where
  "stop sid ss = (if sid < length ss then ss[sid := server_close (ss ! sid)] else ss)"

text \<open>\<^verbatim>\<open>cleanup\<close>: run every closure of \<^verbatim>\<open>afterTest\<close> in order, then empty the array.\<close>

definition cleanup :: "world \<Rightarrow> world" where
  "cleanup w = w\<lparr>servers := fold stop (afterTest w) (servers w), afterTest := []\<rparr>"

subsection \<open>Runs of the module\<close>

datatype wact =
    StartServer nat
  | Cleanup
  | OnServer nat action

fun wstep :: "wact \<Rightarrow> world \<Rightarrow> world" where
  "wstep (StartServer eph) w = (case startServer eph w of Inl e \<Rightarrow> w | Inr (h, w') \<Rightarrow> w')"
| "wstep Cleanup w = cleanup w"
| "wstep (OnServer i a) w =
     (if i < length (servers w) then w\<lparr>servers := (servers w)[i := step a (servers w ! i)]\<rparr>
      else w)"

definition wrun :: "wact list \<Rightarrow> world \<Rightarrow> world" where
  "wrun acts w = fold wstep acts w"


subsection \<open>Invariants\<close>

text \<open>
  Promises: the pending listeners are distinct, were handed out by \<^verbatim>\<open>waitForCrash\<close>
  and are unresolved, and no promise that is yet to be created has a resolution.
\<close>

definition pending_ok :: "server \<Rightarrow> bool" where
  "pending_ok srv \<longleftrightarrow>
     distinct (listeners srv) \<and>
     (\<forall>p \<in> set (listeners srv). p < promises srv \<and> resolutions p srv = []) \<and>
     (\<forall>p. promises srv \<le> p \<longrightarrow> resolutions p srv = [])"

text \<open>A promise that exists and whose listener is gone.\<close>

definition settled :: "nat \<Rightarrow> server \<Rightarrow> bool" where
  "settled p srv \<longleftrightarrow> p < promises srv \<and> p \<notin> set (listeners srv)"

text \<open>Every pending flush callback belongs to a response that has been ended with its id.\<close>

definition answered :: "server \<Rightarrow> bool" where
  "answered srv \<longleftrightarrow>
     (\<forall>c \<in> set (flushing srv).
        sent_id c = reportId \<and> ResponseEnd (sock c) 200 reportId \<in> set (effects srv))"


text \<open>Every listening server has its closing closure in \<^verbatim>\<open>afterTest\<close>.\<close>

definition registered :: "world \<Rightarrow> bool" where
  "registered w \<longleftrightarrow>
     (\<forall>i < length (servers w). listening (servers w ! i) \<longrightarrow> i \<in> set (afterTest w))"

subsection \<open>Sample inputs\<close>

text \<open>A crash reporter that has the report from the first poll on.\<close>

definition happy_reporter :: "nat \<Rightarrow> reporter_view" where
  "happy_reporter t = \<lparr>getLastCrashReport = Some reportId, getUploadedReports = [reportId]\<rparr>"

text \<open>One that has it from the fourth poll on.\<close>

definition slow_reporter :: "nat \<Rightarrow> reporter_view" where
  "slow_reporter t =
     (if t < 3 then \<lparr>getLastCrashReport = None, getUploadedReports = []\<rparr>
      else \<lparr>getLastCrashReport = Some reportId, getUploadedReports = [reportId]\<rparr>)"

text \<open>One that never has a report.\<close>

definition silent_reporter :: "nat \<Rightarrow> reporter_view" where
  "silent_reporter t = \<lparr>getLastCrashReport = None, getUploadedReports = []\<rparr>"

text \<open>A body without multipart boundary: the parser calls back with an error only.\<close>

definition malformed_upload :: request where
  "malformed_upload =
     \<lparr>conn = 1, parse_error = Some (ParseError ''missing boundary''), parse_fields = None\<rparr>"

text \<open>A body with the two form fields \<^verbatim>\<open>prod\<close> and \<^verbatim>\<open>ver\<close>.\<close>

definition sample_upload :: request where
  "sample_upload =
     \<lparr>conn = 2, parse_error = None,
      parse_fields = Some (multiparty_fields [(''prod'', ''Electron''), (''ver'', ''1.2.3'')])\<rparr>"

definition earlier_upload :: request where
  "earlier_upload =
     \<lparr>conn = 3, parse_error = None,
      parse_fields = Some (multiparty_fields [(''prod'', ''Electron''), (''ver'', ''0.9.0'')])\<rparr>"

text \<open>A body that submits the name \<^verbatim>\<open>extra1\<close> twice.\<close>

definition repeated_upload :: request where
  "repeated_upload =
     \<lparr>conn = 4, parse_error = None,
      parse_fields = Some (multiparty_fields [(''extra1'', ''a''), (''extra1'', ''b'')])\<rparr>"


section \<open>Properties\<close>

subsection \<open>The fields object of the parser\<close>

lemma map_of_add_field:
  "map_of (add_field k v acc) k' =
     (if k' = k then Some ((case map_of acc k of None \<Rightarrow> [] | Some vs \<Rightarrow> vs) @ [v])
      else map_of acc k')"
  by (induction k v acc rule: add_field.induct) auto

lemma map_of_fold_add_field:
  "map_of (fold (\<lambda>(k, v). add_field k v) form acc) k =
     (if submitted k form = [] then map_of acc k
      else Some ((case map_of acc k of None \<Rightarrow> [] | Some vs \<Rightarrow> vs) @ submitted k form))"
proof (induction form arbitrary: acc)
  case Nil
  then show ?case by (simp add: submitted_def)
next
  case (Cons p form)
  obtain n v where p: "p = (n, v)" by (cases p)
  show ?case
    unfolding p using Cons.IH [of "add_field n v acc"]
    by (auto simp: submitted_def map_of_add_field split: option.splits)
qed

lemma map_of_map_JArray:
  "map_of (map (\<lambda>(k, vs). (k, JArray vs)) xs) k = map_option JArray (map_of xs k)"
  by (induction xs) auto

lemma submitted_empty_iff: "submitted k form = [] \<longleftrightarrow> k \<notin> fst ` set form"
  by (auto simp: submitted_def filter_empty_conv)

lemma map_of_multiparty_fields:
  "map_of (multiparty_fields form) k =
     (if k \<in> fst ` set form then Some (JArray (submitted k form)) else None)"
  by (simp add: multiparty_fields_def map_of_map_JArray map_of_fold_add_field submitted_empty_iff)

subsection \<open>What one upload does\<close>

lemma parse_callback_error:
  "parse_error req = Some e \<Longrightarrow>
   parse_callback req srv = (Inl e, srv\<lparr>crashes := crashes srv @ [parse_fields req]\<rparr>)"
  by (simp add: parse_callback_def)

lemma parse_callback_ok:
  "parse_error req = None \<Longrightarrow>
   parse_callback req srv =
     (Inr (),
      srv\<lparr>crashes := crashes srv @ [parse_fields req],
          effects := effects srv @ [ResponseEnd (conn req) 200 reportId],
          flushing := flushing srv @
            [\<lparr>sock = conn req, crash = parse_fields req, sent_id = reportId\<rparr>]\<rparr>)"
  by (simp add: parse_callback_def)

lemma flush_callback_ok:
  "checkReport poll (sent_id c) = Inr () \<Longrightarrow>
   flush_callback c poll srv =
     (Inr (),
      srv\<lparr>flushing := remove1 c (flushing srv),
          effects := effects srv @ SocketDestroy (sock c) # map (\<lambda>p. Resolved p (crash c)) (listeners srv),
          listeners := []\<rparr>)"
  by (simp add: flush_callback_def emit_crash_def)

lemma flush_callback_rejected:
  "checkReport poll (sent_id c) = Inl e \<Longrightarrow>
   flush_callback c poll srv = (Inl e, srv\<lparr>flushing := remove1 c (flushing srv)\<rparr>)"
  by (simp add: flush_callback_def)

lemma handleUpload_error:
  "parse_error req = Some e \<Longrightarrow>
   handleUpload req poll srv = (Inl e, srv\<lparr>crashes := crashes srv @ [parse_fields req]\<rparr>)"
  by (simp add: handleUpload_def parse_callback_error)

lemma handleUpload_ok:
  "parse_error req = None \<Longrightarrow> checkReport poll reportId = Inr () \<Longrightarrow>
   handleUpload req poll srv =
     (Inr (),
      srv\<lparr>crashes := crashes srv @ [parse_fields req],
          flushing := remove1 \<lparr>sock = conn req, crash = parse_fields req, sent_id = reportId\<rparr>
            (flushing srv @ [\<lparr>sock = conn req, crash = parse_fields req, sent_id = reportId\<rparr>]),
          effects := effects srv @
            [ResponseEnd (conn req) 200 reportId, SocketDestroy (conn req)] @
            map (\<lambda>p. Resolved p (parse_fields req)) (listeners srv),
          listeners := []\<rparr>)"
  by (simp add: handleUpload_def parse_callback_ok flush_callback_ok)

lemma handleUpload_rejected:
  "parse_error req = None \<Longrightarrow> checkReport poll reportId = Inl e \<Longrightarrow>
   handleUpload req poll srv =
     (Inl e,
      srv\<lparr>crashes := crashes srv @ [parse_fields req],
          flushing := remove1 \<lparr>sock = conn req, crash = parse_fields req, sent_id = reportId\<rparr>
            (flushing srv @ [\<lparr>sock = conn req, crash = parse_fields req, sent_id = reportId\<rparr>]),
          effects := effects srv @ [ResponseEnd (conn req) 200 reportId]\<rparr>)"
  by (simp add: handleUpload_def parse_callback_ok flush_callback_rejected)

lemma handleUpload_returns_iff:
  "fst (handleUpload req poll srv) = Inr () \<longleftrightarrow>
   parse_error req = None \<and> checkReport poll reportId = Inr ()"
proof (cases "parse_error req")
  case None
  show ?thesis
  proof (cases "checkReport poll reportId")
    case (Inl e)
    then show ?thesis using None by (simp add: handleUpload_rejected)
  next
    case (Inr u)
    then show ?thesis using None by (simp add: handleUpload_ok)
  qed
next
  case (Some e)
  then show ?thesis by (simp add: handleUpload_error)
qed

subsection \<open>The record log\<close>

lemma crashes_parse_callback:
  "crashes (snd (parse_callback req srv)) = crashes srv @ [parse_fields req]"
  by (cases "parse_error req") (simp_all add: parse_callback_error parse_callback_ok)

lemma crashes_flush_callback: "crashes (snd (flush_callback c poll srv)) = crashes srv"
  by (cases "checkReport poll (sent_id c)") (simp_all add: flush_callback_ok flush_callback_rejected)

lemma crashes_handleUpload:
  "crashes (snd (handleUpload req poll srv)) = crashes srv @ [parse_fields req]"
proof (cases "parse_error req")
  case None
  then show ?thesis
    by (cases "checkReport poll reportId") (simp_all add: handleUpload_ok handleUpload_rejected)
next
  case (Some e)
  then show ?thesis by (simp add: handleUpload_error)
qed

lemma crashes_step: "crashes (step a srv) = crashes srv @ pushed a"
  by (cases a)
     (simp_all add: crashes_parse_callback crashes_flush_callback crashes_handleUpload
        waitForCrash_def)

lemma crashes_run: "crashes (run acts srv) = crashes srv @ concat (map pushed acts)"
  unfolding run_def
  by (induction acts arbitrary: srv) (simp_all add: crashes_step)

subsection \<open>The listener is untouched by requests\<close>

lemma listening_step: "listening (step a srv) = listening srv"
  by (cases a)
     (simp_all add: parse_callback_def flush_callback_def handleUpload_def emit_crash_def
        waitForCrash_def Let_def split: option.split sum.split prod.split)

subsection \<open>Promises\<close>

lemma resolved_by_emitted:
  "distinct ls \<Longrightarrow>
   concat (map (resolved_by p \<circ> (\<lambda>q. Resolved q info)) ls) = (if p \<in> set ls then [info] else [])"
  by (induction ls) auto

lemma snd_handleUpload:
  "snd (handleUpload req poll srv) =
     (case parse_error req of
        Some e \<Rightarrow> snd (parse_callback req srv)
      | None \<Rightarrow>
          snd (flush_callback \<lparr>sock = conn req, crash = parse_fields req, sent_id = reportId\<rparr> poll
                 (snd (parse_callback req srv))))"
  by (cases "parse_error req") (simp_all add: handleUpload_def parse_callback_error parse_callback_ok)

lemma promises_parse_callback: "promises (snd (parse_callback req srv)) = promises srv"
  by (cases "parse_error req") (simp_all add: parse_callback_error parse_callback_ok)

lemma listeners_parse_callback: "listeners (snd (parse_callback req srv)) = listeners srv"
  by (cases "parse_error req") (simp_all add: parse_callback_error parse_callback_ok)

lemma resolutions_parse_callback: "resolutions p (snd (parse_callback req srv)) = resolutions p srv"
  by (cases "parse_error req") (simp_all add: parse_callback_error parse_callback_ok resolutions_def)

lemma promises_flush_callback: "promises (snd (flush_callback c poll srv)) = promises srv"
  by (cases "checkReport poll (sent_id c)") (simp_all add: flush_callback_ok flush_callback_rejected)

lemma listeners_flush_callback:
  "listeners (snd (flush_callback c poll srv)) =
     (if checkReport poll (sent_id c) = Inr () then [] else listeners srv)"
  by (cases "checkReport poll (sent_id c)") (simp_all add: flush_callback_ok flush_callback_rejected)

lemma resolutions_flush_callback:
  "distinct (listeners srv) \<Longrightarrow>
   resolutions p (snd (flush_callback c poll srv)) =
     resolutions p srv @
     (if checkReport poll (sent_id c) = Inr () \<and> p \<in> set (listeners srv) then [crash c] else [])"
  by (cases "checkReport poll (sent_id c)")
     (simp_all add: flush_callback_ok flush_callback_rejected resolutions_def resolved_by_emitted)

lemma pending_ok_new_server: "pending_ok (new_server bp)"
  by (simp add: pending_ok_def new_server_def resolutions_def)

lemma pending_ok_parse_callback: "pending_ok srv \<Longrightarrow> pending_ok (snd (parse_callback req srv))"
  by (simp add: pending_ok_def promises_parse_callback listeners_parse_callback
        resolutions_parse_callback)

lemma pending_ok_flush_callback:
  assumes "pending_ok srv"
  shows "pending_ok (snd (flush_callback c poll srv))"
proof -
  have d: "distinct (listeners srv)" using assms by (simp add: pending_ok_def)
  have lt: "\<And>p. p \<in> set (listeners srv) \<Longrightarrow> p < promises srv"
    using assms by (simp add: pending_ok_def)
  have fresh: "\<And>p. promises srv \<le> p \<Longrightarrow> p \<notin> set (listeners srv)"
    using lt by fastforce
  show ?thesis
    using assms fresh
    by (simp add: pending_ok_def promises_flush_callback listeners_flush_callback
          resolutions_flush_callback [OF d])
qed

lemma pending_ok_handleUpload: "pending_ok srv \<Longrightarrow> pending_ok (snd (handleUpload req poll srv))"
  by (cases "parse_error req")
     (simp_all add: snd_handleUpload pending_ok_parse_callback pending_ok_flush_callback)

lemma pending_ok_waitForCrash: "pending_ok srv \<Longrightarrow> pending_ok (snd (waitForCrash srv))"
  by (auto simp: pending_ok_def waitForCrash_def resolutions_def)

lemma pending_ok_step: "pending_ok srv \<Longrightarrow> pending_ok (step a srv)"
  by (cases a)
     (simp_all add: pending_ok_parse_callback pending_ok_flush_callback pending_ok_handleUpload
        pending_ok_waitForCrash)

lemma pending_ok_run: "pending_ok srv \<Longrightarrow> pending_ok (run acts srv)"
  unfolding run_def
  by (induction acts arbitrary: srv) (simp_all add: pending_ok_step)

text \<open>A promise that is no longer pending keeps the resolutions it has.\<close>

lemma settled_step:
  assumes "pending_ok srv" "settled p srv"
  shows "settled p (step a srv) \<and> resolutions p (step a srv) = resolutions p srv"
proof -
  have d: "distinct (listeners srv)" using assms by (simp add: pending_ok_def)
  show ?thesis
  proof (cases a)
    case (ParseDone req)
    then show ?thesis using assms
      by (simp add: settled_def promises_parse_callback listeners_parse_callback
            resolutions_parse_callback)
  next
    case (FlushDone i poll)
    then show ?thesis using assms
      by (simp add: settled_def promises_flush_callback listeners_flush_callback
            resolutions_flush_callback [OF d])
  next
    case (Upload req poll)
    have d': "distinct (listeners (snd (parse_callback req srv)))"
      using d by (simp add: listeners_parse_callback)
    show ?thesis using assms Upload
      by (cases "parse_error req")
         (simp_all add: settled_def snd_handleUpload promises_parse_callback
            listeners_parse_callback resolutions_parse_callback promises_flush_callback
            listeners_flush_callback resolutions_flush_callback [OF d'])
  next
    case WaitForCrash
    then show ?thesis using assms
      by (auto simp: settled_def waitForCrash_def resolutions_def)
  qed
qed

lemma settled_run:
  "pending_ok srv \<Longrightarrow> settled p srv \<Longrightarrow> resolutions p (run acts srv) = resolutions p srv"
  unfolding run_def
proof (induction acts arbitrary: srv)
  case Nil
  then show ?case by simp
next
  case (Cons a acts)
  have "pending_ok (step a srv)" using Cons.prems(1) by (rule pending_ok_step)
  moreover have "settled p (step a srv)" "resolutions p (step a srv) = resolutions p srv"
    using settled_step [OF Cons.prems] by simp_all
  ultimately show ?case using Cons.IH [of "step a srv"] by simp
qed

text \<open>An upload that is handled to the end settles every pending promise with its record.\<close>

lemma handleUpload_settles:
  assumes ok: "pending_ok srv" and p: "p \<in> set (listeners srv)"
    and h: "handleUpload req poll srv = (Inr (), srv')"
  shows "pending_ok srv'" "settled p srv'" "resolutions p srv' = [parse_fields req]"
proof -
  have r: "parse_error req = None" "checkReport poll reportId = Inr ()"
    using handleUpload_returns_iff [of req poll srv] h by simp_all
  have s: "srv' = snd (handleUpload req poll srv)" using h by simp
  have d: "distinct (listeners (snd (parse_callback req srv)))"
    using ok by (simp add: listeners_parse_callback pending_ok_def)
  show "pending_ok srv'" using ok s by (simp add: pending_ok_handleUpload)
  show "settled p srv'" using ok p r
    by (simp add: s settled_def snd_handleUpload promises_parse_callback
          promises_flush_callback listeners_flush_callback pending_ok_def)
  show "resolutions p srv' = [parse_fields req]" using ok p r
    by (simp add: s snd_handleUpload resolutions_flush_callback [OF d]
          listeners_parse_callback resolutions_parse_callback pending_ok_def)
qed

subsection \<open>Starting\<close>

lemma startServer_first:
  "crashReporterPort w = 0 \<Longrightarrow> \<not> port_in_use w eph \<Longrightarrow>
   startServer eph w =
     Inr (\<lparr>server_id = length (servers w), port = eph\<rparr>,
          w\<lparr>servers := servers w @ [new_server eph],
            reporter_starts := reporter_starts w @
              [(''Umbrella Corporation'', ''http://127.0.0.1:'' @ string_of_nat eph)],
            crashReporterPort := eph,
            afterTest := afterTest w @ [length (servers w)]\<rparr>)"
  by (simp add: startServer_def listen_def Let_def)

lemma startServer_later:
  "crashReporterPort w \<noteq> 0 \<Longrightarrow> \<not> port_in_use w (crashReporterPort w) \<Longrightarrow>
   startServer eph w =
     Inr (\<lparr>server_id = length (servers w), port = crashReporterPort w\<rparr>,
          w\<lparr>servers := servers w @ [new_server (crashReporterPort w)],
            afterTest := afterTest w @ [length (servers w)]\<rparr>)"
  by (simp add: startServer_def listen_def Let_def)

lemma startServer_refused:
  "port_in_use w (if crashReporterPort w = 0 then eph else crashReporterPort w) \<Longrightarrow>
   startServer eph w = Inl (AddrInUse (if crashReporterPort w = 0 then eph else crashReporterPort w))"
  by (simp add: startServer_def listen_def)

lemma startServer_cases:
  assumes "startServer eph w = Inr (h, w')"
  shows "(crashReporterPort w = 0 \<and> \<not> port_in_use w eph) \<or>
         (crashReporterPort w \<noteq> 0 \<and> \<not> port_in_use w (crashReporterPort w))"
  using assms startServer_refused [of w eph] by (cases "crashReporterPort w = 0") auto

lemma port_in_use_iff:
  "port_in_use w p \<longleftrightarrow> (\<exists>i < length (servers w). listening (servers w ! i) \<and> bound_port (servers w ! i) = p)"
  unfolding port_in_use_def list_ex_iff by (metis in_set_conv_nth)

subsection \<open>The port is fixed by the first start\<close>







subsection \<open>Cleanup\<close>

lemma length_stop: "length (stop sid ss) = length ss"
  by (simp add: stop_def)

lemma length_fold_stop: "length (fold stop ids ss) = length ss"
  by (induction ids arbitrary: ss) (simp_all add: length_stop)

lemma listening_stop:
  "i < length ss \<Longrightarrow> listening (stop sid ss ! i) \<longleftrightarrow> listening (ss ! i) \<and> i \<noteq> sid"
  by (auto simp: stop_def server_close_def nth_list_update)

lemma listening_fold_stop:
  "i < length ss \<Longrightarrow> listening (fold stop ids ss ! i) \<longleftrightarrow> listening (ss ! i) \<and> i \<notin> set ids"
  by (induction ids arbitrary: ss) (auto simp: length_stop listening_stop)

lemma stop_stop: "stop sid (stop sid ss) = stop sid ss"
  by (simp add: stop_def server_close_def)

lemma cleanup_cleanup: "cleanup (cleanup w) = cleanup w"
  by (simp add: cleanup_def)

lemma registered_init: "registered init_world"
  by (simp add: registered_def init_world_def)

lemma registered_wstep:
  assumes "registered w"
  shows "registered (wstep a w)"
proof (cases a)
  case (StartServer eph)
  show ?thesis
  proof (cases "startServer eph w")
    case (Inl e)
    then show ?thesis using StartServer assms by simp
  next
    case (Inr r)
    obtain h w' where r: "r = (h, w')" by (cases r)
    have s: "startServer eph w = Inr (h, w')" using Inr r by simp
    have "registered w'"
      using startServer_cases [OF s] s assms
      by (auto simp: startServer_first startServer_later registered_def nth_append less_Suc_eq)
    then show ?thesis using StartServer s by simp
  qed
next
  case Cleanup
  then show ?thesis using assms
    by (simp add: cleanup_def registered_def length_fold_stop listening_fold_stop)
next
  case (OnServer i b)
  then show ?thesis using assms
    by (auto simp: registered_def nth_list_update listening_step)
qed

lemma registered_wrun: "registered w \<Longrightarrow> registered (wrun acts w)"
  unfolding wrun_def
  by (induction acts arbitrary: w) (simp_all add: registered_wstep)

lemma cleanup_releases: "registered w \<Longrightarrow> \<not> port_in_use (cleanup w) p"
  by (auto simp: port_in_use_iff cleanup_def registered_def length_fold_stop listening_fold_stop)

subsection \<open>Pending flush callbacks\<close>

lemma flushing_flush_callback:
  "flushing (snd (flush_callback c poll srv)) = remove1 c (flushing srv)"
  by (cases "checkReport poll (sent_id c)") (simp_all add: flush_callback_ok flush_callback_rejected)

lemma effects_flush_callback:
  "effects (snd (flush_callback c poll srv)) =
     effects srv @
     (if checkReport poll (sent_id c) = Inr ()
      then SocketDestroy (sock c) # map (\<lambda>p. Resolved p (crash c)) (listeners srv) else [])"
  by (cases "checkReport poll (sent_id c)") (simp_all add: flush_callback_ok flush_callback_rejected)

lemma answered_new_server: "answered (new_server bp)"
  by (simp add: answered_def new_server_def)

lemma answered_parse_callback: "answered srv \<Longrightarrow> answered (snd (parse_callback req srv))"
  by (cases "parse_error req") (auto simp: answered_def parse_callback_error parse_callback_ok)

lemma answered_flush_callback:
  assumes "answered srv"
  shows "answered (snd (flush_callback c poll srv))"
proof -
  have "set (remove1 c (flushing srv)) \<subseteq> set (flushing srv)" by (rule set_remove1_subset)
  then show ?thesis
    using assms by (auto simp: answered_def flushing_flush_callback effects_flush_callback)
qed

lemma answered_step:
  assumes "answered srv"
  shows "answered (step a srv)"
proof (cases a)
  case (ParseDone req)
  then show ?thesis using assms by (simp add: answered_parse_callback)
next
  case (FlushDone i poll)
  then show ?thesis using assms by (simp add: answered_flush_callback)
next
  case (Upload req poll)
  then show ?thesis using assms
    by (cases "parse_error req")
       (simp_all add: snd_handleUpload answered_parse_callback answered_flush_callback)
next
  case WaitForCrash
  then show ?thesis using assms by (simp add: waitForCrash_def answered_def)
qed

lemma answered_run: "answered srv \<Longrightarrow> answered (run acts srv)"
  unfolding run_def
  by (induction acts arbitrary: srv) (simp_all add: answered_step)

subsection \<open>Emission\<close>

lemma flush_callback_returns_iff:
  "fst (flush_callback c poll srv) = Inr () \<longleftrightarrow> checkReport poll (sent_id c) = Inr ()"
  by (cases "checkReport poll (sent_id c)") (simp_all add: flush_callback_ok flush_callback_rejected)

lemma flush_callback_settles:
  assumes ok: "pending_ok srv" and p: "p \<in> set (listeners srv)"
    and h: "flush_callback c poll srv = (Inr (), srv')"
  shows "pending_ok srv'" "settled p srv'" "resolutions p srv' = [crash c]"
proof -
  have r: "checkReport poll (sent_id c) = Inr ()"
    using flush_callback_returns_iff [of c poll srv] h by simp
  have s: "srv' = snd (flush_callback c poll srv)" using h by simp
  have d: "distinct (listeners srv)" using ok by (simp add: pending_ok_def)
  show "pending_ok srv'" using ok s by (simp add: pending_ok_flush_callback)
  show "settled p srv'" using ok p r
    by (simp add: s settled_def promises_flush_callback listeners_flush_callback pending_ok_def)
  show "resolutions p srv' = [crash c]" using ok p r
    by (simp add: s resolutions_flush_callback [OF d] pending_ok_def)
qed

subsection \<open>The polling loop\<close>

lemma waitLoop_gives_up:
  "waitLoop poll n k = Inl e \<longleftrightarrow>
     e = NoCrashReportAvailable \<and> (\<forall>t. n \<le> t \<and> t < n + k \<longrightarrow> getLastCrashReport (poll t) = None)"
proof (induction k arbitrary: n)
  case 0
  then show ?case by auto
next
  case (Suc k)
  show ?case
  proof (cases "getLastCrashReport (poll n) = None")
    case True
    have "(\<forall>t. Suc n \<le> t \<and> t < Suc n + k \<longrightarrow> getLastCrashReport (poll t) = None) \<longleftrightarrow>
          (\<forall>t. n \<le> t \<and> t < n + Suc k \<longrightarrow> getLastCrashReport (poll t) = None)"
      using True by (metis Suc_leD Suc_leI add_Suc add_Suc_right le_neq_implies_less)
    then show ?thesis using True Suc.IH [of "Suc n"] by simp
  next
    case False
    then show ?thesis by auto
  qed
qed

lemma waitLoop_finds:
  "waitLoop poll n k = Inr t \<longleftrightarrow>
     n \<le> t \<and> t < n + k \<and> getLastCrashReport (poll t) \<noteq> None \<and>
     (\<forall>u. n \<le> u \<and> u < t \<longrightarrow> getLastCrashReport (poll u) = None)"
proof (induction k arbitrary: n)
  case 0
  then show ?case by auto
next
  case (Suc k)
  show ?case
  proof (cases "getLastCrashReport (poll n) = None")
    case True
    have "(Suc n \<le> t \<and> t < Suc n + k \<and> getLastCrashReport (poll t) \<noteq> None \<and>
            (\<forall>u. Suc n \<le> u \<and> u < t \<longrightarrow> getLastCrashReport (poll u) = None)) \<longleftrightarrow>
          (n \<le> t \<and> t < n + Suc k \<and> getLastCrashReport (poll t) \<noteq> None \<and>
            (\<forall>u. n \<le> u \<and> u < t \<longrightarrow> getLastCrashReport (poll u) = None))"
      using True by (metis Suc_leD Suc_leI add_Suc add_Suc_right le_neq_implies_less)
    then show ?thesis using True Suc.IH [of "Suc n"] by simp
  next
    case False
    then show ?thesis by (auto simp: not_less)
  qed
qed

subsection \<open>Evaluating the model on the sample inputs\<close>

lemmas server_eval =
  handleUpload_def parse_callback_def flush_callback_def emit_crash_def waitForCrash_def
  new_server_def getCrashes_def Let_def run_def resolutions_def field_def

lemmas world_eval =
  wrun_def startServer_def listen_def port_in_use_def cleanup_def stop_def server_close_def
  init_world_def new_server_def string_of_nat.simps Let_def

lemma checkReport_happy: "checkReport happy_reporter reportId = Inr ()"
  by (simp add: checkReport_def waitForCrashReport_def happy_reporter_def eval_nat_numeral)

lemma checkReport_slow: "checkReport slow_reporter reportId = Inr ()"
  by (simp add: checkReport_def waitForCrashReport_def slow_reporter_def eval_nat_numeral)

lemma checkReport_silent: "checkReport silent_reporter r = Inl NoCrashReportAvailable"
  by (simp add: checkReport_def waitForCrashReport_def silent_reporter_def eval_nat_numeral)

lemmas sample_eval =
  sample_upload_def malformed_upload_def earlier_upload_def repeated_upload_def
  multiparty_fields_def
  checkReport_happy checkReport_slow checkReport_silent

section \<open>The claims\<close>

subsection \<open>C1: an upload that fails to decode\<close>

text \<open>
  C1 says that an upload whose multipart decode fails propagates the parse error, appends no
  record to the log, does not show in \<^verbatim>\<open>getCrashes()\<close>, and leaves the server able to
  take a well-formed upload afterwards. The callback runs \<^verbatim>\<open>crashes.push(fields)\<close>
  before \<^verbatim>\<open>if (error) throw error\<close>. On the malformed sample the error is rethrown
  and the listener stays up, and the next well-formed upload is handled to the end; but
  the log has grown by the undefined \<^verbatim>\<open>fields\<close> of the failed request.
\<close>

theorem malformed_upload_is_logged:
  "handleUpload malformed_upload happy_reporter (new_server 50000) =
     (Inl (ParseError ''missing boundary''), (new_server 50000)\<lparr>crashes := [None]\<rparr>) \<and>
   getCrashes (new_server 50000) = [] \<and>
   getCrashes (snd (handleUpload malformed_upload happy_reporter (new_server 50000))) = [None] \<and>
   listening (snd (handleUpload malformed_upload happy_reporter (new_server 50000))) \<and>
   fst (handleUpload sample_upload happy_reporter
          (snd (handleUpload malformed_upload happy_reporter (new_server 50000)))) = Inr () \<and>
   getCrashes (snd (handleUpload sample_upload happy_reporter
          (snd (handleUpload malformed_upload happy_reporter (new_server 50000))))) =
     [None, Some [(''prod'', JArray [''Electron'']), (''ver'', JArray [''1.2.3''])]]"
  by (simp add: server_eval sample_eval)

subsection \<open>C2: respond, destroy the socket, then notify\<close>

text \<open>
  C2 as stated fails. It says that for every successful upload the response is ended,
  then the socket destroyed, then the pending waiter resolved. Between the flush of the
  response and the destruction of the socket the handler awaits
  \<^verbatim>\<open>checkReport(reportId)\<close>. The sample upload decodes and is answered; the crash
  reporter never has a report, the self-check gives up, and the handler ends there: the
  response is the only effect, the socket is not destroyed, and the waiter registered
  before the upload (promise 0) is still pending and unresolved, while the record is in
  the log.
\<close>

theorem answered_but_never_torn_down:
  "parse_error sample_upload = None \<and>
   fst (waitForCrash (new_server 50000)) = 0 \<and>
   fst (handleUpload sample_upload silent_reporter (snd (waitForCrash (new_server 50000)))) =
     Inl NoCrashReportAvailable \<and>
   effects (snd (handleUpload sample_upload silent_reporter (snd (waitForCrash (new_server 50000))))) =
     [ResponseEnd 2 200 reportId] \<and>
   listeners (snd (handleUpload sample_upload silent_reporter (snd (waitForCrash (new_server 50000))))) =
     [0] \<and>
   resolutions 0
     (snd (handleUpload sample_upload silent_reporter (snd (waitForCrash (new_server 50000))))) = [] \<and>
   getCrashes (snd (handleUpload sample_upload silent_reporter (snd (waitForCrash (new_server 50000))))) =
     [Some [(''prod'', JArray [''Electron'']), (''ver'', JArray [''1.2.3''])]]"
  by (simp add: server_eval sample_eval)

text \<open>
  C2, amended: for every successful upload (the body decodes) the response, with status
  200 and the report id as its body, is ended first. If the self-check
  \<^verbatim>\<open>checkReport(reportId)\<close> that the handler awaits then passes, the socket of the
  request is destroyed, and only then is every pending waiter resolved, with the record
  just appended, and these are all the effects, in this order; if the self-check fails,
  its error is the outcome of the handler, the socket is not destroyed and no waiter is
  resolved. In both cases, and also when no waiter is pending, the record is in the log
  and stays at its place whatever happens later.
\<close>

theorem respond_destroy_then_resolve:
  assumes "parse_error req = None"
  shows "effects (snd (handleUpload req poll srv)) =
           effects srv @ ResponseEnd (conn req) 200 reportId #
           (if checkReport poll reportId = Inr ()
            then SocketDestroy (conn req) #
                 map (\<lambda>p. Resolved p (parse_fields req)) (listeners srv)
            else []) \<and>
         fst (handleUpload req poll srv) = checkReport poll reportId \<and>
         listeners (snd (handleUpload req poll srv)) =
           (if checkReport poll reportId = Inr () then [] else listeners srv) \<and>
         getCrashes (snd (handleUpload req poll srv)) = getCrashes srv @ [parse_fields req] \<and>
         (\<forall>acts. getCrashes (run acts (snd (handleUpload req poll srv))) ! length (getCrashes srv) =
            parse_fields req)"
proof -
  have c: "crashes (snd (handleUpload req poll srv)) = crashes srv @ [parse_fields req]"
    by (rule crashes_handleUpload)
  have l: "\<forall>acts. crashes (run acts (snd (handleUpload req poll srv))) ! length (crashes srv) =
      parse_fields req"
    by (simp add: crashes_run c)
  show ?thesis
  proof (cases "checkReport poll reportId")
    case (Inl e)
    then show ?thesis
      using c l by (simp add: handleUpload_rejected [OF assms Inl] getCrashes_def)
  next
    case (Inr u)
    then have r: "checkReport poll reportId = Inr ()" by simp
    show ?thesis
      using c l by (simp add: handleUpload_ok [OF assms r] r getCrashes_def)
  qed
qed

theorem respond_destroy_then_resolve_witness:
  "parse_error sample_upload = None \<and>
   checkReport slow_reporter reportId = Inr () \<and>
   fst (handleUpload sample_upload slow_reporter (snd (waitForCrash (new_server 50000)))) = Inr () \<and>
   effects (snd (handleUpload sample_upload slow_reporter (snd (waitForCrash (new_server 50000))))) =
     [ResponseEnd 2 200 reportId, SocketDestroy 2,
      Resolved 0 (Some [(''prod'', JArray [''Electron'']), (''ver'', JArray [''1.2.3''])])] \<and>
   getCrashes (snd (handleUpload sample_upload slow_reporter (snd (waitForCrash (new_server 50000))))) =
     [Some [(''prod'', JArray [''Electron'']), (''ver'', JArray [''1.2.3''])]] \<and>
   checkReport silent_reporter reportId = Inl NoCrashReportAvailable \<and>
   effects (snd (handleUpload sample_upload silent_reporter (new_server 50000))) =
     [ResponseEnd 2 200 reportId] \<and>
   getCrashes (snd (handleUpload sample_upload silent_reporter (new_server 50000))) =
     [Some [(''prod'', JArray [''Electron'']), (''ver'', JArray [''1.2.3''])]]"
proof -
  have a: "parse_error sample_upload = None" by (simp add: sample_upload_def)
  have s: "effects (snd (waitForCrash (new_server 50000))) = []"
    "listeners (snd (waitForCrash (new_server 50000))) = [0]"
    "getCrashes (snd (waitForCrash (new_server 50000))) = []"
    "effects (new_server 50000) = []" "getCrashes (new_server 50000) = []"
    by (simp_all add: waitForCrash_def new_server_def getCrashes_def)
  have f: "conn sample_upload = 2"
    "parse_fields sample_upload =
       Some [(''prod'', JArray [''Electron'']), (''ver'', JArray [''1.2.3''])]"
    by (simp_all add: sample_upload_def multiparty_fields_def)
  show ?thesis
    using a
      respond_destroy_then_resolve [OF a, of slow_reporter "snd (waitForCrash (new_server 50000))"]
      respond_destroy_then_resolve [OF a, of silent_reporter "new_server 50000"]
    by (simp add: s f checkReport_slow checkReport_silent)
qed

subsection \<open>C3: what a waiter is resolved with\<close>

text \<open>
  C3 as stated fails. It says that a promise of \<^verbatim>\<open>waitForCrash()\<close> resolves with the
  record that is appended after the call. The record is pushed when the body is decoded,
  the event is emitted later, from the flush callback. Below, one upload is decoded, then
  the waiter registers (promise 0), then the sample upload is decoded and appended, then
  both flush callbacks run: the promise is resolved once, with the record that was in the
  log before the call, and never with the one appended after it.
\<close>

theorem resolved_with_an_earlier_record:
  "fst (waitForCrash (run [ParseDone earlier_upload] (new_server 50000))) = 0 \<and>
   getCrashes (run [ParseDone earlier_upload] (new_server 50000)) =
     [Some [(''prod'', JArray [''Electron'']), (''ver'', JArray [''0.9.0''])]] \<and>
   getCrashes (run [ParseDone earlier_upload, WaitForCrash, ParseDone sample_upload,
                    FlushDone 0 happy_reporter, FlushDone 0 happy_reporter] (new_server 50000)) =
     [Some [(''prod'', JArray [''Electron'']), (''ver'', JArray [''0.9.0''])],
      Some [(''prod'', JArray [''Electron'']), (''ver'', JArray [''1.2.3''])]] \<and>
   resolutions 0 (run [ParseDone earlier_upload, WaitForCrash, ParseDone sample_upload,
                       FlushDone 0 happy_reporter, FlushDone 0 happy_reporter] (new_server 50000)) =
     [Some [(''prod'', JArray [''Electron'']), (''ver'', JArray [''0.9.0''])]]"
  by (simp add: server_eval sample_eval)

text \<open>
  C3, amended: a promise of \<^verbatim>\<open>waitForCrash()\<close> that is still pending is resolved by the
  first flush callback that runs to its end after the call (the first \<^verbatim>\<open>'crash'\<close>
  emitted), with the record of that callback's upload, and it is resolved exactly once:
  no later action adds a resolution. In particular an upload that is handled to its end
  while the promise is pending resolves it with the upload's own record, so waiting
  before a single upload with \<^verbatim>\<open>prod\<close> \<^verbatim>\<open>Electron\<close> and \<^verbatim>\<open>ver\<close> \<^verbatim>\<open>1.2.3\<close> yields a
  record with these two fields (read through \<^verbatim>\<open>String(...)\<close>, as the source reads
  the fields of a record).
\<close>

theorem waiter_resolved_once:
  assumes "waitForCrash (run before (new_server bp)) = (p, s1)"
    and "p \<in> set (listeners (run during s1))"
  shows "resolutions p (run during s1) = [] \<and>
         (flush_callback c poll (run during s1) = (Inr (), s3) \<longrightarrow>
            resolutions p (run later s3) = [crash c]) \<and>
         (handleUpload req poll' (run during s1) = (Inr (), s4) \<longrightarrow>
            resolutions p (run later' s4) = [parse_fields req])"
proof -
  have "pending_ok (run before (new_server bp))"
    by (simp add: pending_ok_run pending_ok_new_server)
  then have "pending_ok s1"
    using pending_ok_waitForCrash [of "run before (new_server bp)"] assms(1) by simp
  then have ok: "pending_ok (run during s1)" by (rule pending_ok_run)
  have 1: "resolutions p (run during s1) = []"
    using ok assms(2) by (simp add: pending_ok_def)
  have 2: "resolutions p (run later s3) = [crash c]"
    if h: "flush_callback c poll (run during s1) = (Inr (), s3)"
  proof -
    have "resolutions p (run later s3) = resolutions p s3"
      using flush_callback_settles(1,2) [OF ok assms(2) h] by (rule settled_run)
    then show ?thesis using flush_callback_settles(3) [OF ok assms(2) h] by simp
  qed
  have 3: "resolutions p (run later' s4) = [parse_fields req]"
    if h: "handleUpload req poll' (run during s1) = (Inr (), s4)"
  proof -
    have "resolutions p (run later' s4) = resolutions p s4"
      using handleUpload_settles(1,2) [OF ok assms(2) h] by (rule settled_run)
    then show ?thesis using handleUpload_settles(3) [OF ok assms(2) h] by simp
  qed
  show ?thesis using 1 2 3 by blast
qed

theorem waiter_resolved_once_witness:
  "waitForCrash (run [] (new_server 50000)) = (0, snd (waitForCrash (new_server 50000))) \<and>
   0 \<in> set (listeners (run [ParseDone malformed_upload] (snd (waitForCrash (new_server 50000))))) \<and>
   fst (handleUpload sample_upload happy_reporter
          (run [ParseDone malformed_upload] (snd (waitForCrash (new_server 50000))))) = Inr () \<and>
   resolutions 0
     (run [Upload earlier_upload happy_reporter, WaitForCrash]
        (snd (handleUpload sample_upload happy_reporter
           (run [ParseDone malformed_upload] (snd (waitForCrash (new_server 50000))))))) =
     [Some [(''prod'', JArray [''Electron'']), (''ver'', JArray [''1.2.3''])]] \<and>
   map_option js_String
     (field (Some [(''prod'', JArray [''Electron'']), (''ver'', JArray [''1.2.3''])]) ''prod'') =
     Some ''Electron'' \<and>
   map_option js_String
     (field (Some [(''prod'', JArray [''Electron'']), (''ver'', JArray [''1.2.3''])]) ''ver'') =
     Some ''1.2.3'' \<and>
   waitForCrash (run [ParseDone earlier_upload] (new_server 50000)) =
      (0, snd (waitForCrash (run [ParseDone earlier_upload] (new_server 50000)))) \<and>
   0 \<in> set (listeners (run [ParseDone sample_upload]
      (snd (waitForCrash (run [ParseDone earlier_upload] (new_server 50000)))))) \<and>
   fst (flush_callback
        \<lparr>sock = 3, crash = Some [(''prod'', JArray [''Electron'']), (''ver'', JArray [''0.9.0''])], sent_id = reportId\<rparr>
        happy_reporter
        (run [ParseDone sample_upload]
           (snd (waitForCrash (run [ParseDone earlier_upload] (new_server 50000)))))) = Inr () \<and>
   resolutions 0
     (run [FlushDone 0 happy_reporter]
        (snd (flush_callback
          \<lparr>sock = 3, crash = Some [(''prod'', JArray [''Electron'']), (''ver'', JArray [''0.9.0''])], sent_id = reportId\<rparr>
          happy_reporter
          (run [ParseDone sample_upload]
             (snd (waitForCrash (run [ParseDone earlier_upload] (new_server 50000)))))))) =
     [Some [(''prod'', JArray [''Electron'']), (''ver'', JArray [''0.9.0''])]]"
proof -
  have a: "waitForCrash (run [] (new_server 50000)) = (0, snd (waitForCrash (new_server 50000)))"
    by (simp add: run_def waitForCrash_def new_server_def)
  have b: "0 \<in> set (listeners (run [ParseDone malformed_upload] (snd (waitForCrash (new_server 50000)))))"
    by (simp add: server_eval sample_eval)
  have f: "fst (handleUpload sample_upload happy_reporter
          (run [ParseDone malformed_upload] (snd (waitForCrash (new_server 50000))))) = Inr ()"
    by (simp add: server_eval sample_eval)
  have c: "handleUpload sample_upload happy_reporter
          (run [ParseDone malformed_upload] (snd (waitForCrash (new_server 50000)))) =
        (Inr (), snd (handleUpload sample_upload happy_reporter
          (run [ParseDone malformed_upload] (snd (waitForCrash (new_server 50000))))))"
    using f by (simp add: prod_eq_iff)
  have a': "waitForCrash (run [ParseDone earlier_upload] (new_server 50000)) =
      (0, snd (waitForCrash (run [ParseDone earlier_upload] (new_server 50000))))"
    by (simp add: server_eval sample_eval)
  have b': "0 \<in> set (listeners (run [ParseDone sample_upload]
      (snd (waitForCrash (run [ParseDone earlier_upload] (new_server 50000))))))"
    by (simp add: server_eval sample_eval)
  have f': "fst (flush_callback
        \<lparr>sock = 3, crash = Some [(''prod'', JArray [''Electron'']), (''ver'', JArray [''0.9.0''])], sent_id = reportId\<rparr>
        happy_reporter
        (run [ParseDone sample_upload]
           (snd (waitForCrash (run [ParseDone earlier_upload] (new_server 50000)))))) = Inr ()"
    by (simp add: server_eval sample_eval)
  have c': "flush_callback
        \<lparr>sock = 3, crash = Some [(''prod'', JArray [''Electron'']), (''ver'', JArray [''0.9.0''])], sent_id = reportId\<rparr>
        happy_reporter
        (run [ParseDone sample_upload]
           (snd (waitForCrash (run [ParseDone earlier_upload] (new_server 50000))))) =
      (Inr (), snd (flush_callback
        \<lparr>sock = 3, crash = Some [(''prod'', JArray [''Electron'']), (''ver'', JArray [''0.9.0''])], sent_id = reportId\<rparr>
        happy_reporter
        (run [ParseDone sample_upload]
           (snd (waitForCrash (run [ParseDone earlier_upload] (new_server 50000)))))))"
    using f' by (simp add: prod_eq_iff)
  have g: "resolutions 0
     (run [Upload earlier_upload happy_reporter, WaitForCrash]
        (snd (handleUpload sample_upload happy_reporter
           (run [ParseDone malformed_upload] (snd (waitForCrash (new_server 50000))))))) =
     [Some [(''prod'', JArray [''Electron'']), (''ver'', JArray [''1.2.3''])]]"
    using c
      waiter_resolved_once [OF a b, of _ _ _ _ sample_upload happy_reporter
        "snd (handleUpload sample_upload happy_reporter
           (run [ParseDone malformed_upload] (snd (waitForCrash (new_server 50000)))))"
        "[Upload earlier_upload happy_reporter, WaitForCrash]"]
    by (simp add: sample_upload_def multiparty_fields_def)
  have g': "resolutions 0
     (run [FlushDone 0 happy_reporter]
        (snd (flush_callback
          \<lparr>sock = 3, crash = Some [(''prod'', JArray [''Electron'']), (''ver'', JArray [''0.9.0''])], sent_id = reportId\<rparr>
          happy_reporter
          (run [ParseDone sample_upload]
             (snd (waitForCrash (run [ParseDone earlier_upload] (new_server 50000)))))))) =
     [Some [(''prod'', JArray [''Electron'']), (''ver'', JArray [''0.9.0''])]]"
    using c'
      waiter_resolved_once [OF a' b',
        of "\<lparr>sock = 3, crash = Some [(''prod'', JArray [''Electron'']), (''ver'', JArray [''0.9.0''])], sent_id = reportId\<rparr>"
        happy_reporter _ "[FlushDone 0 happy_reporter]"]
    by simp
  show ?thesis using a b f g a' b' f' g' by (simp add: field_def)
qed

subsection \<open>C4: the record of a valid upload\<close>

text \<open>
  C4 as stated fails: the values of the new record are not strings. The handler pushes
  the fields object of the parser as it is, and there every name holds the array of the
  values submitted under it. For the sample upload the value logged under \<^verbatim>\<open>prod\<close>
  is the array with the one element \<^verbatim>\<open>Electron\<close>; for a body that submits
  \<^verbatim>\<open>extra1\<close> twice, the record has one key \<^verbatim>\<open>extra1\<close> with both values.
\<close>

theorem logged_values_are_arrays:
  "field (last (getCrashes (snd (handleUpload sample_upload happy_reporter (new_server 50000)))))
     ''prod'' = Some (JArray [''Electron'']) \<and>
   map_option is_string
     (field (last (getCrashes (snd (handleUpload sample_upload happy_reporter (new_server 50000)))))
        ''prod'') = Some False \<and>
   getCrashes (snd (handleUpload repeated_upload happy_reporter (new_server 50000))) =
     [Some [(''extra1'', JArray [''a'', ''b''])]]"
  by (simp add: server_eval sample_eval)

text \<open>
  C4, amended: for every valid upload, with the form fields \<open>form\<close>, the log returned by
  \<^verbatim>\<open>getCrashes()\<close> grows by exactly one entry, the fields object of the parser
  unchanged: each submitted name maps to the array of the strings submitted under it, in
  their order, and a name that was not submitted is absent from the record (neither
  empty nor null). A name submitted once holds a one-element array, which
  \<^verbatim>\<open>String(...)\<close> reads as the submitted string. This holds whether or not the later
  self-check of the handler passes.
\<close>

theorem valid_upload_is_recorded:
  assumes "parse_error req = None" and "parse_fields req = Some (multiparty_fields form)"
  shows "length (getCrashes (snd (handleUpload req poll srv))) = Suc (length (getCrashes srv)) \<and>
         getCrashes (snd (handleUpload req poll srv)) =
           getCrashes srv @ [Some (multiparty_fields form)] \<and>
         (\<forall>k. field (last (getCrashes (snd (handleUpload req poll srv)))) k =
              (if k \<in> fst ` set form then Some (JArray (submitted k form)) else None)) \<and>
         (\<forall>k v. submitted k form = [v] \<longrightarrow>
              map_option js_String (field (last (getCrashes (snd (handleUpload req poll srv)))) k) =
              Some v)"
proof -
  have g: "getCrashes (snd (handleUpload req poll srv)) =
      getCrashes srv @ [Some (multiparty_fields form)]"
    using assms by (simp add: getCrashes_def crashes_handleUpload)
  have f: "field (last (getCrashes (snd (handleUpload req poll srv)))) k =
      (if k \<in> fst ` set form then Some (JArray (submitted k form)) else None)" for k
    by (simp add: g field_def map_of_multiparty_fields)
  have o: "map_option js_String (field (last (getCrashes (snd (handleUpload req poll srv)))) k) =
      Some v" if "submitted k form = [v]" for k v
  proof -
    have "submitted k form \<noteq> []" using that by simp
    then have "k \<in> fst ` set form" by (simp add: submitted_empty_iff)
    then show ?thesis using that by (simp add: f)
  qed
  show ?thesis using g f o by simp
qed

theorem valid_upload_is_recorded_witness:
  "parse_error sample_upload = None \<and>
   parse_fields sample_upload =
     Some (multiparty_fields [(''prod'', ''Electron''), (''ver'', ''1.2.3'')]) \<and>
   submitted ''ver'' [(''prod'', ''Electron''), (''ver'', ''1.2.3'')] = [''1.2.3''] \<and>
   length (getCrashes (snd (handleUpload sample_upload silent_reporter (new_server 50000)))) = 1 \<and>
   getCrashes (snd (handleUpload sample_upload silent_reporter (new_server 50000))) =
     [Some [(''prod'', JArray [''Electron'']), (''ver'', JArray [''1.2.3''])]] \<and>
   field (last (getCrashes (snd (handleUpload sample_upload silent_reporter (new_server 50000))))) ''ver'' =
     Some (JArray [''1.2.3'']) \<and>
   map_option js_String
     (field (last (getCrashes (snd (handleUpload sample_upload silent_reporter (new_server 50000)))))
        ''ver'') = Some ''1.2.3'' \<and>
   field (last (getCrashes (snd (handleUpload sample_upload silent_reporter (new_server 50000))))) ''extra3'' =
     None"
proof -
  have a: "parse_error sample_upload = None"
    and b: "parse_fields sample_upload =
      Some (multiparty_fields [(''prod'', ''Electron''), (''ver'', ''1.2.3'')])"
    by (simp_all add: sample_upload_def)
  have c: "submitted ''ver'' [(''prod'', ''Electron''), (''ver'', ''1.2.3'')] = [''1.2.3'']"
    by (simp add: submitted_def)
  have m: "multiparty_fields [(''prod'', ''Electron''), (''ver'', ''1.2.3'')] =
      [(''prod'', JArray [''Electron'']), (''ver'', JArray [''1.2.3''])]"
    by (simp add: multiparty_fields_def)
  note t = valid_upload_is_recorded [OF a b, of silent_reporter "new_server 50000"]
  have 1: "length (getCrashes (snd (handleUpload sample_upload silent_reporter (new_server 50000)))) = 1"
    using t by (simp add: new_server_def getCrashes_def)
  have 2: "getCrashes (snd (handleUpload sample_upload silent_reporter (new_server 50000))) =
     [Some [(''prod'', JArray [''Electron'']), (''ver'', JArray [''1.2.3''])]]"
    using t by (simp add: new_server_def getCrashes_def m)
  have 3: "field (last (getCrashes (snd (handleUpload sample_upload silent_reporter (new_server 50000)))))
      ''ver'' = Some (JArray [''1.2.3''])"
  proof -
    have "field (last (getCrashes (snd (handleUpload sample_upload silent_reporter (new_server 50000)))))
        ''ver'' =
      (if ''ver'' \<in> fst ` set [(''prod'', ''Electron''), (''ver'', ''1.2.3'')]
       then Some (JArray (submitted ''ver'' [(''prod'', ''Electron''), (''ver'', ''1.2.3'')]))
       else None)"
      using t by blast
    then show ?thesis by (simp add: c)
  qed
  have 4: "map_option js_String
     (field (last (getCrashes (snd (handleUpload sample_upload silent_reporter (new_server 50000)))))
        ''ver'') = Some ''1.2.3''"
    using t c by blast
  have 5: "field (last (getCrashes (snd (handleUpload sample_upload silent_reporter (new_server 50000)))))
      ''extra3'' = None"
  proof -
    have "field (last (getCrashes (snd (handleUpload sample_upload silent_reporter (new_server 50000)))))
        ''extra3'' =
      (if ''extra3'' \<in> fst ` set [(''prod'', ''Electron''), (''ver'', ''1.2.3'')]
       then Some (JArray (submitted ''extra3'' [(''prod'', ''Electron''), (''ver'', ''1.2.3'')]))
       else None)"
      using t by blast
    then show ?thesis by simp
  qed
  show ?thesis using a b c 1 2 3 4 5 by blast
qed

subsection \<open>C5: the log keeps the order of decoding\<close>

text \<open>
  C5: \<^verbatim>\<open>getCrashes()\<close> returns the whole log in insertion order. After \<open>N\<close> uploads
  handled one after the other on a new server it holds their \<open>N\<close> records in that order;
  under any interleaving of decoding, flushing and waiting it is the old log followed by
  what the actions pushed, in the order in which the decodes completed; and the entries
  already there are never changed, so that no record is seen half written.
\<close>

theorem getCrashes_in_upload_order:
  "getCrashes (run (map (\<lambda>u. Upload (fst u) (snd u)) ups) (new_server bp)) =
     map (\<lambda>u. parse_fields (fst u)) ups \<and>
   getCrashes (run acts srv) = getCrashes srv @ concat (map pushed acts) \<and>
   take (length (getCrashes srv)) (getCrashes (run acts srv)) = getCrashes srv"
proof -
  have "concat (map pushed (map (\<lambda>u. Upload (fst u) (snd u)) ups)) =
        map (\<lambda>u. parse_fields (fst u)) ups"
    by (induction ups) simp_all
  then show ?thesis
    by (simp add: getCrashes_def crashes_run new_server_def)
qed

theorem getCrashes_in_upload_order_witness:
  "getCrashes (run (map (\<lambda>u. Upload (fst u) (snd u))
       [(earlier_upload, happy_reporter), (sample_upload, silent_reporter)]) (new_server 50000)) =
     [Some [(''prod'', JArray [''Electron'']), (''ver'', JArray [''0.9.0''])],
      Some [(''prod'', JArray [''Electron'']), (''ver'', JArray [''1.2.3''])]] \<and>
   getCrashes (run [ParseDone sample_upload, ParseDone earlier_upload, FlushDone 1 happy_reporter]
       (new_server 50000)) =
     [Some [(''prod'', JArray [''Electron'']), (''ver'', JArray [''1.2.3''])],
      Some [(''prod'', JArray [''Electron'']), (''ver'', JArray [''0.9.0''])]]"
  using getCrashes_in_upload_order
      [of "[(earlier_upload, happy_reporter), (sample_upload, silent_reporter)]" 50000
          "[ParseDone sample_upload, ParseDone earlier_upload, FlushDone 1 happy_reporter]"
          "new_server 50000"]
  by (simp add: sample_upload_def earlier_upload_def multiparty_fields_def new_server_def getCrashes_def)

subsection \<open>C6: the response\<close>

text \<open>
  C6: for every upload that decodes, the first effect is the response, with status 200 and
  the report id as its body. The id is one and the same through the exchange: the
  pending flush callback holds the id that was sent, the self-check that decides the
  outcome of the upload is made with it, every flush callback that is ever pending on a
  server holds it, and it is the constant of the source.
\<close>

theorem response_is_report_id:
  assumes "parse_error req = None"
  shows "(\<exists>rest. effects (snd (handleUpload req poll srv)) =
            effects srv @ ResponseEnd (conn req) 200 reportId # rest) \<and>
         fst (handleUpload req poll srv) = checkReport poll reportId \<and>
         effects (snd (parse_callback req srv)) = effects srv @ [ResponseEnd (conn req) 200 reportId] \<and>
         flushing (snd (parse_callback req srv)) =
           flushing srv @ [\<lparr>sock = conn req, crash = parse_fields req, sent_id = reportId\<rparr>] \<and>
         (\<forall>c \<in> set (flushing (run acts (new_server bp))).
            sent_id c = reportId \<and>
            ResponseEnd (sock c) 200 reportId \<in> set (effects (run acts (new_server bp)))) \<and>
         reportId = ''abc-123-def-456-abc-789-abc-123-abcd''"
proof -
  have 1: "\<exists>rest. effects (snd (handleUpload req poll srv)) =
            effects srv @ ResponseEnd (conn req) 200 reportId # rest"
    using assms
    by (cases "checkReport poll reportId") (simp_all add: handleUpload_ok handleUpload_rejected)
  have 2: "fst (handleUpload req poll srv) = checkReport poll reportId"
    using assms
    by (cases "checkReport poll reportId") (simp_all add: handleUpload_ok handleUpload_rejected)
  have "answered (run acts (new_server bp))"
    by (simp add: answered_run answered_new_server)
  then have 3: "\<forall>c \<in> set (flushing (run acts (new_server bp))).
            sent_id c = reportId \<and>
            ResponseEnd (sock c) 200 reportId \<in> set (effects (run acts (new_server bp)))"
    by (simp add: answered_def)
  show ?thesis using 1 2 3 assms by (simp add: parse_callback_ok reportId_def)
qed

theorem response_is_report_id_witness:
  "parse_error sample_upload = None \<and>
   effects (snd (parse_callback sample_upload (new_server 50000))) =
     [ResponseEnd 2 200 reportId] \<and>
   flushing (snd (parse_callback sample_upload (new_server 50000))) =
     [\<lparr>sock = 2, crash = Some [(''prod'', JArray [''Electron'']), (''ver'', JArray [''1.2.3''])],
       sent_id = reportId\<rparr>] \<and>
   fst (handleUpload sample_upload silent_reporter (new_server 50000)) = Inl NoCrashReportAvailable \<and>
   flushing (run [ParseDone sample_upload] (new_server 50000)) =
     [\<lparr>sock = 2, crash = Some [(''prod'', JArray [''Electron'']), (''ver'', JArray [''1.2.3''])],
       sent_id = reportId\<rparr>] \<and>
   ResponseEnd 2 200 reportId \<in> set (effects (run [ParseDone sample_upload] (new_server 50000))) \<and>
   reportId = ''abc-123-def-456-abc-789-abc-123-abcd''"
proof -
  have a: "parse_error sample_upload = None" by (simp add: sample_upload_def multiparty_fields_def)
  note t = response_is_report_id [OF a, of silent_reporter "new_server 50000"
      "[ParseDone sample_upload]" 50000]
  have e: "effects (snd (parse_callback sample_upload (new_server 50000))) =
      effects (new_server 50000) @ [ResponseEnd (conn sample_upload) 200 reportId]"
    using t by blast
  have f: "flushing (snd (parse_callback sample_upload (new_server 50000))) =
      flushing (new_server 50000) @
      [\<lparr>sock = conn sample_upload, crash = parse_fields sample_upload, sent_id = reportId\<rparr>]"
    using t by blast
  have g: "fst (handleUpload sample_upload silent_reporter (new_server 50000)) =
      checkReport silent_reporter reportId"
    using t by blast
  have i: "reportId = ''abc-123-def-456-abc-789-abc-123-abcd''"
    using t by blast
  have e': "effects (snd (parse_callback sample_upload (new_server 50000))) =
     [ResponseEnd 2 200 reportId]"
    unfolding e by (simp add: new_server_def sample_upload_def multiparty_fields_def)
  have f': "flushing (snd (parse_callback sample_upload (new_server 50000))) =
     [\<lparr>sock = 2, crash = Some [(''prod'', JArray [''Electron'']), (''ver'', JArray [''1.2.3''])],
       sent_id = reportId\<rparr>]"
    unfolding f by (simp add: new_server_def sample_upload_def multiparty_fields_def)
  have g': "fst (handleUpload sample_upload silent_reporter (new_server 50000)) =
      Inl NoCrashReportAvailable"
    unfolding g by (rule checkReport_silent)
  have b: "flushing (run [ParseDone sample_upload] (new_server 50000)) =
     [\<lparr>sock = 2, crash = Some [(''prod'', JArray [''Electron'']), (''ver'', JArray [''1.2.3''])],
       sent_id = reportId\<rparr>]"
    by (simp add: server_eval sample_eval)
  have "\<forall>c \<in> set (flushing (run [ParseDone sample_upload] (new_server 50000))).
      ResponseEnd (sock c) 200 reportId \<in> set (effects (run [ParseDone sample_upload] (new_server 50000)))"
    using t by blast
  then have m: "ResponseEnd 2 200 reportId \<in>
      set (effects (run [ParseDone sample_upload] (new_server 50000)))"
    unfolding b by simp
  show ?thesis using a e' f' g' b m i by blast
qed

subsection \<open>C7: stopping twice\<close>

text \<open>
  C7: stopping is idempotent. The closure that \<^verbatim>\<open>startServer\<close> registers closes its
  server, and running it a second time changes nothing; after it the server no longer
  listens. \<^verbatim>\<open>cleanup\<close>, which runs the registered closures, empties \<^verbatim>\<open>afterTest\<close>, so
  a second \<^verbatim>\<open>cleanup\<close> finds nothing to run and leaves the state as the first one left
  it; and after a \<^verbatim>\<open>cleanup\<close>, whatever was started and uploaded before, no port is
  bound by any server of the module.
\<close>

theorem stop_is_idempotent:
  "stop sid (stop sid ss) = stop sid ss \<and>
   (sid < length ss \<longrightarrow> \<not> listening (stop sid ss ! sid)) \<and>
   cleanup (cleanup w) = cleanup w \<and>
   afterTest (cleanup w) = [] \<and>
   (\<forall>p. \<not> port_in_use (cleanup (wrun acts init_world)) p)"
proof -
  have "registered (wrun acts init_world)"
    by (simp add: registered_wrun registered_init)
  then have "\<forall>p. \<not> port_in_use (cleanup (wrun acts init_world)) p"
    by (simp add: cleanup_releases)
  moreover have "afterTest (cleanup w) = []" by (simp add: cleanup_def)
  ultimately show ?thesis
    by (simp add: stop_stop cleanup_cleanup listening_stop)
qed

theorem stop_is_idempotent_witness:
  "0 < length [new_server 50000] \<and>
   listening ([new_server 50000] ! 0) \<and>
   \<not> listening (stop 0 [new_server 50000] ! 0) \<and>
   stop 0 (stop 0 [new_server 50000]) = stop 0 [new_server 50000] \<and>
   port_in_use (wrun [StartServer 50000] init_world) 50000 \<and>
   \<not> port_in_use (cleanup (wrun [StartServer 50000] init_world)) 50000 \<and>
   cleanup (cleanup (wrun [StartServer 50000] init_world)) =
     cleanup (wrun [StartServer 50000] init_world)"
proof -
  have a: "port_in_use (wrun [StartServer 50000] init_world) 50000"
    by (simp add: world_eval)
  have b: "listening ([new_server 50000] ! 0)" by (simp add: new_server_def)
  show ?thesis
    using a b
      stop_is_idempotent [of 0 "[new_server 50000]" "wrun [StartServer 50000] init_world"
        "[StartServer 50000]"]
    by simp
qed

subsection \<open>C8: the port of a start\<close>




subsection \<open>C9: the crash reporter is started once\<close>



subsection \<open>C10: several waiters\<close>



section \<open>Further properties of the handler\<close>

subsection \<open>Interleaved uploads\<close>

text \<open>
  On a server reached by any interleaving of decodes, flushes and waits, a flush callback
  that is pending belongs to a response that has already been ended, with the report id.
  When it runs and its self-check passes, the socket is destroyed after that response and
  the waiters pending at that moment are resolved after the socket is destroyed; when
  the self-check fails it adds no effect at all.
\<close>

theorem flush_follows_response:
  assumes "i < length (flushing (run acts (new_server bp)))"
    and "c = flushing (run acts (new_server bp)) ! i"
  shows "\<exists>earlier later.
           effects (run acts (new_server bp)) =
             earlier @ ResponseEnd (sock c) 200 reportId # later \<and>
           effects (step (FlushDone i poll) (run acts (new_server bp))) =
             earlier @ ResponseEnd (sock c) 200 reportId # later @
             (if checkReport poll reportId = Inr ()
              then SocketDestroy (sock c) #
                   map (\<lambda>p. Resolved p (crash c)) (listeners (run acts (new_server bp)))
              else [])"
proof -
  have "answered (run acts (new_server bp))"
    by (simp add: answered_run answered_new_server)
  moreover have m: "c \<in> set (flushing (run acts (new_server bp)))"
    using assms by simp
  ultimately have id: "sent_id c = reportId"
    and r: "ResponseEnd (sock c) 200 reportId \<in> set (effects (run acts (new_server bp)))"
    by (simp_all add: answered_def)
  from r obtain earlier later
    where e: "effects (run acts (new_server bp)) = earlier @ ResponseEnd (sock c) 200 reportId # later"
    by (auto dest: split_list)
  have "effects (step (FlushDone i poll) (run acts (new_server bp))) =
          effects (run acts (new_server bp)) @
          (if checkReport poll reportId = Inr ()
           then SocketDestroy (sock c) #
                map (\<lambda>p. Resolved p (crash c)) (listeners (run acts (new_server bp)))
           else [])"
  proof -
    have "step (FlushDone i poll) (run acts (new_server bp)) =
            snd (flush_callback c poll (run acts (new_server bp)))"
      using assms by simp
    then show ?thesis by (simp only: effects_flush_callback id)
  qed
  then show ?thesis using e by auto
qed

theorem flush_follows_response_witness:
  "0 < length (flushing (run [ParseDone earlier_upload, WaitForCrash, ParseDone sample_upload]
         (new_server 50000))) \<and>
   flushing (run [ParseDone earlier_upload, WaitForCrash, ParseDone sample_upload]
         (new_server 50000)) ! 0 =
     \<lparr>sock = 3, crash = Some [(''prod'', JArray [''Electron'']), (''ver'', JArray [''0.9.0''])], sent_id = reportId\<rparr> \<and>
   effects (run [ParseDone earlier_upload, WaitForCrash, ParseDone sample_upload]
         (new_server 50000)) =
     [ResponseEnd 3 200 reportId, ResponseEnd 2 200 reportId] \<and>
   effects (step (FlushDone 0 happy_reporter)
      (run [ParseDone earlier_upload, WaitForCrash, ParseDone sample_upload] (new_server 50000))) =
     [ResponseEnd 3 200 reportId, ResponseEnd 2 200 reportId, SocketDestroy 3,
      Resolved 0 (Some [(''prod'', JArray [''Electron'']), (''ver'', JArray [''0.9.0''])])]"
proof -
  have a: "0 < length (flushing (run [ParseDone earlier_upload, WaitForCrash, ParseDone sample_upload]
         (new_server 50000)))"
    by (simp add: server_eval sample_eval)
  have b: "\<lparr>sock = 3, crash = Some [(''prod'', JArray [''Electron'']), (''ver'', JArray [''0.9.0''])], sent_id = reportId\<rparr> =
      flushing (run [ParseDone earlier_upload, WaitForCrash, ParseDone sample_upload]
         (new_server 50000)) ! 0"
    by (simp add: server_eval sample_eval)
  have l: "listeners (run [ParseDone earlier_upload, WaitForCrash, ParseDone sample_upload]
         (new_server 50000)) = [0]"
    by (simp add: server_eval sample_eval)
  have e: "effects (run [ParseDone earlier_upload, WaitForCrash, ParseDone sample_upload]
         (new_server 50000)) =
     [ResponseEnd 3 200 reportId, ResponseEnd 2 200 reportId]"
    by (simp add: server_eval sample_eval)
  from flush_follows_response [OF a b, of happy_reporter]
  obtain earlier later where
    1: "effects (run [ParseDone earlier_upload, WaitForCrash, ParseDone sample_upload]
         (new_server 50000)) = earlier @ ResponseEnd 3 200 reportId # later"
    and 2: "effects (step (FlushDone 0 happy_reporter)
      (run [ParseDone earlier_upload, WaitForCrash, ParseDone sample_upload] (new_server 50000))) =
      earlier @ ResponseEnd 3 200 reportId # later @
      [SocketDestroy 3, Resolved 0 (Some [(''prod'', JArray [''Electron'']), (''ver'', JArray [''0.9.0''])])]"
    by (auto simp: l checkReport_happy)
  have "effects (step (FlushDone 0 happy_reporter)
      (run [ParseDone earlier_upload, WaitForCrash, ParseDone sample_upload] (new_server 50000))) =
     [ResponseEnd 3 200 reportId, ResponseEnd 2 200 reportId] @
     [SocketDestroy 3, Resolved 0 (Some [(''prod'', JArray [''Electron'']), (''ver'', JArray [''0.9.0''])])]"
    using 1 2 unfolding e by (metis append.assoc append_Cons)
  then show ?thesis using a b [symmetric] e by simp
qed

subsection \<open>A failed self-check\<close>

text \<open>
  When the body decodes and \<^verbatim>\<open>checkReport\<close> fails (no report after ten polls, or a
  report with another id), the failure is the outcome of the handler; the response has
  been ended and the record is in the log, but the socket is not destroyed and every
  waiter stays pending.
\<close>

theorem failed_check_keeps_socket_and_waiters:
  assumes "parse_error req = None" and "checkReport poll reportId = Inl e"
  shows "fst (handleUpload req poll srv) = Inl e \<and>
         effects (snd (handleUpload req poll srv)) =
           effects srv @ [ResponseEnd (conn req) 200 reportId] \<and>
         listeners (snd (handleUpload req poll srv)) = listeners srv \<and>
         getCrashes (snd (handleUpload req poll srv)) = getCrashes srv @ [parse_fields req]"
  by (simp add: handleUpload_rejected [OF assms] getCrashes_def)

theorem failed_check_keeps_socket_and_waiters_witness:
  "parse_error sample_upload = None \<and>
   checkReport silent_reporter reportId = Inl NoCrashReportAvailable \<and>
   fst (handleUpload sample_upload silent_reporter (snd (waitForCrash (new_server 50000)))) =
     Inl NoCrashReportAvailable \<and>
   effects (snd (handleUpload sample_upload silent_reporter (snd (waitForCrash (new_server 50000))))) =
     [ResponseEnd 2 200 reportId] \<and>
   listeners (snd (handleUpload sample_upload silent_reporter (snd (waitForCrash (new_server 50000))))) =
     [0]"
proof -
  have a: "parse_error sample_upload = None" by (simp add: sample_upload_def multiparty_fields_def)
  have b: "checkReport silent_reporter reportId = Inl NoCrashReportAvailable"
    by (rule checkReport_silent)
  show ?thesis
    using a b
      failed_check_keeps_socket_and_waiters [OF a b, of "snd (waitForCrash (new_server 50000))"]
    by (simp add: waitForCrash_def new_server_def sample_upload_def multiparty_fields_def)
qed

subsection \<open>The polling loop gives up after ten polls\<close>

text \<open>
  \<^verbatim>\<open>waitForCrashReport\<close> fails exactly when none of the polls 0 to 9 finds a report, and
  otherwise returns at the first poll that finds one.
\<close>

theorem waitForCrashReport_ten_polls:
  "(waitForCrashReport poll = Inl NoCrashReportAvailable \<longleftrightarrow>
      (\<forall>t < 10. getLastCrashReport (poll t) = None)) \<and>
   (waitForCrashReport poll = Inr t \<longleftrightarrow>
      t < 10 \<and> getLastCrashReport (poll t) \<noteq> None \<and>
      (\<forall>u < t. getLastCrashReport (poll u) = None))"
  by (simp add: waitForCrashReport_def waitLoop_gives_up waitLoop_finds)

theorem waitForCrashReport_ten_polls_witness:
  "waitForCrashReport slow_reporter = Inr 3 \<and>
   (3::nat) < 10 \<and> getLastCrashReport (slow_reporter 3) = Some reportId \<and>
   getLastCrashReport (slow_reporter 2) = None \<and>
   waitForCrashReport silent_reporter = Inl NoCrashReportAvailable \<and>
   getLastCrashReport (silent_reporter 9) = None"
proof -
  have a: "(3::nat) < 10 \<and> getLastCrashReport (slow_reporter 3) \<noteq> None \<and>
      (\<forall>u < 3. getLastCrashReport (slow_reporter u) = None)"
    by (simp add: slow_reporter_def)
  have b: "\<forall>t < 10. getLastCrashReport (silent_reporter t) = None"
    by (simp add: silent_reporter_def)
  have "waitForCrashReport slow_reporter = Inr 3"
    using a waitForCrashReport_ten_polls [of slow_reporter 3] by blast
  moreover have "waitForCrashReport silent_reporter = Inl NoCrashReportAvailable"
    using b waitForCrashReport_ten_polls [of silent_reporter 0] by blast
  ultimately show ?thesis by (simp add: slow_reporter_def silent_reporter_def)
qed

end
